theory Spec2Isabelle
  imports Main "HOL-Library.AList"
begin

section \<open>Values, attribute bags and exceptions\<close>

text \<open>
  The node wrapper of \<^verbatim>\<open>nipype/pipeline/node_wrapper.py\<close> is Python 2 code working on
  dynamically typed values. The values that reach the wrapper are input values (scalars,
  file names, lists) and the dictionaries behind \<^verbatim>\<open>Bunch\<close> objects.
\<close>

datatype pyval =
    VNone
  | VBool bool
  | VInt int
  | VStr string
  | VList "pyval list"
  | VDict "(string \<times> pyval) list"

text \<open>Python truthiness, as used by \<^verbatim>\<open>if files:\<close>.\<close>

fun truthy :: "pyval \<Rightarrow> bool" where
  "truthy VNone = False"
| "truthy (VBool b) = b"
| "truthy (VInt i) = (i \<noteq> 0)"
| "truthy (VStr s) = (s \<noteq> [])"
| "truthy (VList xs) = (xs \<noteq> [])"
| "truthy (VDict kvs) = (kvs \<noteq> [])"

text \<open>\<^verbatim>\<open>isinstance(v, list)\<close>.\<close>

fun is_list :: "pyval \<Rightarrow> bool" where
  "is_list (VList xs) = True"
| "is_list v = False"

text \<open>
  A \<^verbatim>\<open>Bunch\<close> keeps its attributes in its instance dictionary. It is modelled by an
  association list: \<^verbatim>\<open>get\<close> is the dictionary's \<^verbatim>\<open>get\<close> (\<^verbatim>\<open>None\<close> for a missing key),
  \<^verbatim>\<open>hasattr\<close> is membership of the key, \<^verbatim>\<open>setattr\<close> replaces the value in place or adds
  the key, and \<^verbatim>\<open>iteritems\<close> enumerates the list.
\<close>

type_synonym bunch = "(string \<times> pyval) list"

definition bunch_get :: "bunch \<Rightarrow> string \<Rightarrow> pyval" where
  "bunch_get b k = (case map_of b k of None \<Rightarrow> VNone | Some v \<Rightarrow> v)"

definition bunch_hasattr :: "bunch \<Rightarrow> string \<Rightarrow> bool" where
  "bunch_hasattr b k = (map_of b k \<noteq> None)"

definition bunch_setattr :: "bunch \<Rightarrow> string \<Rightarrow> pyval \<Rightarrow> bunch" where
  "bunch_setattr b k v = AList.update k v b"

text \<open>The exceptions that the wrapper raises itself or that its own operations raise.\<close>

datatype exn =
    Exception string
  | ValueError string
  | RuntimeError string
  | StandardError string
  | AttributeError
  | IndexError
  | KeyError
  | IOError
  | TypeError

section \<open>The execution adapter and its results\<close>

record runtime =
  returncode :: int
  stderr :: string

text \<open>What one call of the adapter's \<^verbatim>\<open>run\<close> returns: an \<^verbatim>\<open>InterfaceResult\<close>.\<close>

record adapter_result =
  a_interface :: string
  a_runtime :: runtime
  a_outputs :: bunch

text \<open>
  The wrapper's own \<^verbatim>\<open>_result\<close> holds either one interface and one runtime, or lists of
  them (when iterating), or \<^verbatim>\<open>None\<close> for both (when outputs were only collected).
\<close>

datatype 'a slot = SNone | SOne 'a | SList "'a list"

record interface_result =
  r_interface :: "string slot"
  r_runtime :: "runtime slot"
  r_outputs :: bunch

record input_info =
  info_key :: string
  info_copy :: bool

text \<open>The part of the file system that the wrapper looks at.\<close>

record fs =
  dirs :: "string set"
  files :: "string \<rightharpoonup> string"

text \<open>
  The interface object: its class, its \<^verbatim>\<open>inputs\<close> bunch (mutable), the optional
  \<^verbatim>\<open>get_input_info\<close> method, and the two operations of the adapter. \<^verbatim>\<open>run(cwd=...)\<close>
  reads the inputs, its argument, the process's working directory and the file system.
  A call of the adapter is taken to return, a failure being its nonzero return code, and
  the files that the adapter creates are not tracked.
\<close>

record interface =
  class_name :: string
  class_module :: string
  if_inputs :: bunch
  get_input_info :: "input_info list option"
  if_run :: "bunch \<Rightarrow> string option \<Rightarrow> string \<Rightarrow> fs \<Rightarrow> adapter_result"
  aggregate_outputs :: "bunch \<Rightarrow> string \<Rightarrow> fs \<Rightarrow> bunch"

section \<open>The world outside the node\<close>

text \<open>
  The log records the calls that the claims are about: every invocation of the adapter
  (with the inputs it saw, its \<^verbatim>\<open>cwd\<close> argument and its result), every collection of
  outputs by \<^verbatim>\<open>aggregate_outputs\<close>, and every write of a file by the wrapper.
\<close>

datatype event =
    Invoked bunch "string option" adapter_result
  | Collected bunch
  | Wrote string string

record world =
  getcwd :: string
  filesystem :: fs
  trace :: "event list"

text \<open>
  The helpers that the wrapper imports from modules outside the sources at hand
  (\<^verbatim>\<open>nipype.utils.filemanip\<close>, \<^verbatim>\<open>tempfile\<close>, \<^verbatim>\<open>os.path\<close>, \<^verbatim>\<open>Bunch._get_bunch_hash\<close>,
  \<^verbatim>\<open>json\<close>, \<^verbatim>\<open>str\<close>) are parameters. Calls of the operating system are taken to succeed,
  except opening a file for writing, whose failure the wrapper handles. Logging is left out.
\<close>

record env =
  mkdtemp :: "fs \<Rightarrow> string"
  abspath :: "string \<Rightarrow> string \<Rightarrow> string"
  get_bunch_hash :: "bunch \<Rightarrow> fs \<Rightarrow> pyval \<times> string"
  cleandir :: "string \<Rightarrow> fs \<Rightarrow> fs"
  copyfiles :: "pyval \<Rightarrow> pyval \<Rightarrow> bool \<Rightarrow> fs \<Rightarrow> pyval \<times> fs"
  filename_to_list :: "pyval \<Rightarrow> pyval"
  list_to_filename :: "pyval \<Rightarrow> pyval"
  fname_presuffix :: "pyval \<Rightarrow> string \<Rightarrow> string"
  json_dumps :: "pyval \<Rightarrow> string option"
  str_of :: "pyval \<Rightarrow> string"
  str_of_bunch :: "bunch \<Rightarrow> string"
  can_open :: "string \<Rightarrow> bool"

definition path_exists :: "world \<Rightarrow> string \<Rightarrow> bool" where
  "path_exists w p = (p \<in> dirs (filesystem w) \<or> files (filesystem w) p \<noteq> None)"

definition os_mkdir :: "string \<Rightarrow> world \<Rightarrow> world" where
  "os_mkdir p w = w\<lparr>filesystem := (filesystem w)\<lparr>dirs := insert p (dirs (filesystem w))\<rparr>\<rparr>"

definition os_chdir :: "string \<Rightarrow> world \<Rightarrow> world" where
  "os_chdir p w = w\<lparr>getcwd := p\<rparr>"

definition write_file :: "string \<Rightarrow> string \<Rightarrow> world \<Rightarrow> world" where
  "write_file p s w =
     w\<lparr>filesystem := (filesystem w)\<lparr>files := (files (filesystem w))(p \<mapsto> s)\<rparr>,
       trace := trace w @ [Wrote p s]\<rparr>"

text \<open>\<^verbatim>\<open>os.path.join\<close> of two components (POSIX).\<close>

definition path_join :: "string \<Rightarrow> string \<Rightarrow> string" where
  "path_join a b =
     (if b \<noteq> [] \<and> hd b = CHR ''/'' then b
      else if a = [] \<or> last a = CHR ''/'' then a @ b
      else a @ ''/'' @ b)"

text \<open>\<^verbatim>\<open>'%d' % i\<close> for an index.\<close>

fun digit_of :: "nat \<Rightarrow> char" where
  "digit_of n = char_of (48 + n mod 10)"

function string_of_nat :: "nat \<Rightarrow> string" where
  "string_of_nat n = (if n < 10 then [digit_of n] else string_of_nat (n div 10) @ [digit_of n])"
  by pat_completeness auto
termination
  by (relation "measure id") auto

declare string_of_nat.simps [simp del]

text \<open>\<^verbatim>\<open>s.split(c)\<close> for a one-character separator; the result is never empty.\<close>

fun split_on :: "char \<Rightarrow> string \<Rightarrow> string list" where
  "split_on c [] = [[]]"
| "split_on c (x # xs) =
     (if x = c then [] # split_on c xs
      else (case split_on c xs of [] \<Rightarrow> [[x]] | p # ps \<Rightarrow> (x # p) # ps))"

section \<open>The node\<close>

text \<open>
  The attributes that \<^verbatim>\<open>__init__\<close> creates are fields. \<^verbatim>\<open>attrs\<close> holds the attributes
  that \<^verbatim>\<open>set_input\<close> adds to the wrapper for a name that is not an input (such a name is
  taken to be none of the attributes above); \<^verbatim>\<open>itervals_attr\<close> is \<^verbatim>\<open>_itervals\<close>, which
  exists only after a failed iteration.
\<close>

record node =
  interface :: interface
  result :: "interface_result option"
  iterables :: bunch
  iterfield :: "string list"
  parameterization :: pyval
  disk_based :: bool
  output_directory_base :: "string option"
  overwrite :: "bool option"
  name :: string
  node_id :: string
  itervals_attr :: "(string \<times> pyval list) list option"
  attrs :: bunch

definition inputs :: "node \<Rightarrow> bunch" where
  "inputs n = if_inputs (interface n)"

definition set_inputs :: "bunch \<Rightarrow> node \<Rightarrow> node" where
  "set_inputs b n = n\<lparr>interface := (interface n)\<lparr>if_inputs := b\<rparr>\<rparr>"

text \<open>
  \<^verbatim>\<open>__init__\<close>. \<^verbatim>\<open>diskbased\<close> and \<^verbatim>\<open>overwrite\<close> are only ever tested for truth.
\<close>

definition init ::
  "interface option \<Rightarrow> bunch \<Rightarrow> string list \<Rightarrow> bool \<Rightarrow> string option \<Rightarrow> bool \<Rightarrow> string option
     \<Rightarrow> exn + node" where
  "init interface_arg iterables_arg iterfield_arg diskbased base_directory overwrite_arg name_arg =
     (case interface_arg of
        None \<Rightarrow> Inl (Exception ''Interface must be provided'')
      | Some iface \<Rightarrow>
          if \<not> diskbased \<and> base_directory \<noteq> None
          then Inl (ValueError ''Setting base_directory requires a disk based interface'')
          else
            let nm = (case name_arg of
                        None \<Rightarrow> class_name iface @ ''.'' @ last (split_on CHR ''.'' (class_module iface))
                      | Some s \<Rightarrow> s)
            in Inr \<lparr> interface = iface,
                     result = None,
                     iterables = iterables_arg,
                     iterfield = iterfield_arg,
                     parameterization = VNone,
                     disk_based = diskbased,
                     output_directory_base = (if diskbased then base_directory else None),
                     overwrite = (if diskbased then Some overwrite_arg else None),
                     name = nm,
                     node_id = nm,
                     itervals_attr = None,
                     attrs = [] \<rparr>)"

text \<open>
  \<^verbatim>\<open>set_input\<close>: priority goes to the interface's inputs; otherwise the value becomes an
  attribute of the wrapper. \<^verbatim>\<open>deepcopy\<close> is the identity on values.
\<close>

definition set_input :: "string \<Rightarrow> pyval \<Rightarrow> node \<Rightarrow> node" where
  "set_input parameter val n =
     (if bunch_hasattr (inputs n) parameter
      then set_inputs (bunch_setattr (inputs n) parameter val) n
      else n\<lparr>attrs := bunch_setattr (attrs n) parameter val\<rparr>)"



section \<open>Writing the cache marker\<close>

text \<open>
  Modelled from the spec: \<^verbatim>\<open>save_json\<close> of \<^verbatim>\<open>nipype.utils.filemanip\<close> is not among the
  sources. It persists the data as the body of the file: it opens the file for writing
  (\<^verbatim>\<open>IOError\<close> when that fails) and serialises the data into it (\<^verbatim>\<open>TypeError\<close> for a value
  that JSON cannot represent, leaving the file opened and empty).
\<close>

definition save_json :: "env \<Rightarrow> string \<Rightarrow> pyval \<Rightarrow> world \<Rightarrow> (exn + unit) \<times> world" where
  "save_json E filename data w =
     (if \<not> can_open E filename then (Inl IOError, w)
      else case json_dumps E data of
             None \<Rightarrow> (Inl TypeError, write_file filename [] w)
           | Some s \<Rightarrow> (Inr (), write_file filename s w))"

text \<open>
  \<^verbatim>\<open>_save_hashfile\<close>. Only \<^verbatim>\<open>IOError\<close> and \<^verbatim>\<open>TypeError\<close> are caught; the \<^verbatim>\<open>open\<close> of the
  handler is not protected.
\<close>

definition save_hashfile :: "env \<Rightarrow> string \<Rightarrow> pyval \<Rightarrow> world \<Rightarrow> (exn + unit) \<times> world" where
  "save_hashfile E hashfile hashed_inputs w =
     (case save_json E hashfile hashed_inputs w of
        (Inr u, w1) \<Rightarrow> (Inr (), w1)
      | (Inl TypeError, w1) \<Rightarrow>
          if can_open E hashfile
          then (Inr (), write_file hashfile (str_of E hashed_inputs) w1)
          else (Inl IOError, w1)
      | (Inl IOError, w1) \<Rightarrow> (Inr (), w1)
      | (Inl e, w1) \<Rightarrow> (Inl e, w1))"

section \<open>Directories and the marker's path\<close>

text \<open>\<^verbatim>\<open>_output_directory\<close>; \<^verbatim>\<open>mkdtemp\<close> creates the directory it names.\<close>

definition output_directory :: "env \<Rightarrow> node \<Rightarrow> world \<Rightarrow> string \<times> node \<times> world" where
  "output_directory E n w =
     (case output_directory_base n of
        None \<Rightarrow>
          let d = mkdtemp E (filesystem w);
              w1 = os_mkdir d w
          in (abspath E (getcwd w1) (path_join d (name n)), n\<lparr>output_directory_base := Some d\<rparr>, w1)
      | Some b \<Rightarrow> (abspath E (getcwd w) (path_join b (name n)), n, w))"

text \<open>\<^verbatim>\<open>_make_output_dir\<close>.\<close>

definition make_output_dir :: "env \<Rightarrow> string \<Rightarrow> world \<Rightarrow> string \<times> world" where
  "make_output_dir E outdir w =
     (if \<not> path_exists w (abspath E (getcwd w) outdir) then (outdir, os_mkdir outdir w)
      else (outdir, w))"

text \<open>
  The first lines of \<^verbatim>\<open>run\<close> for a disk based node: the output directory, the hashed
  inputs and the path of the marker, \<^verbatim>\<open>os.path.join(outdir, '_0x%s.json' % hashvalue)\<close>.
\<close>

definition resolve_marker ::
  "env \<Rightarrow> node \<Rightarrow> world \<Rightarrow> (string \<times> pyval \<times> string) \<times> node \<times> world" where
  "resolve_marker E n w =
     (case output_directory E n w of
        (outdir0, n1, w1) \<Rightarrow>
          (case make_output_dir E outdir0 w1 of
             (outdir, w2) \<Rightarrow>
               (case get_bunch_hash E (inputs n1) (filesystem w2) of
                  (hashed_inputs, hashvalue) \<Rightarrow>
                    ((outdir, hashed_inputs, path_join outdir (''_0x'' @ hashvalue @ ''.json'')),
                     n1, w2))))"

section \<open>Staging of input files\<close>

text \<open>The loop over \<^verbatim>\<open>get_input_info()\<close> before a fresh execution.\<close>

fun stage_inputs :: "env \<Rightarrow> string \<Rightarrow> input_info list \<Rightarrow> node \<Rightarrow> world \<Rightarrow> node \<times> world" where
  "stage_inputs E outdir [] n w = (n, w)"
| "stage_inputs E outdir (info # infos) n w =
     (let fls = bunch_get (inputs n) (info_key info)
      in if fls \<noteq> VNone
         then (case copyfiles E (filename_to_list E fls) (VList [VStr outdir]) (info_copy info)
                      (filesystem w) of
                 (newfiles, fs1) \<Rightarrow>
                   stage_inputs E outdir infos
                     (set_inputs (bunch_setattr (inputs n) (info_key info)
                                    (list_to_filename E newfiles)) n)
                     (w\<lparr>filesystem := fs1\<rparr>))
         else stage_inputs E outdir infos n w)"

text \<open>
  The loop over \<^verbatim>\<open>enumerate(infiles)\<close> when execution is skipped. For a list the element
  at the index is replaced in the list held by the inputs (the list being enumerated);
  otherwise the input is set to the new file.
\<close>

fun relink_files ::
  "env \<Rightarrow> string \<Rightarrow> input_info \<Rightarrow> bool \<Rightarrow> (nat \<times> pyval) list \<Rightarrow> node \<Rightarrow> world \<Rightarrow> node \<times> world" where
  "relink_files E outdir info islist [] n w = (n, w)"
| "relink_files E outdir info islist ((i, f) # rest) n w =
     (let newfile = fname_presuffix E f outdir;
          w1 = (if \<not> path_exists w newfile
                then w\<lparr>filesystem := snd (copyfiles E f (VStr newfile) (info_copy info) (filesystem w))\<rparr>
                else w);
          n1 = (if islist
                then (case bunch_get (inputs n) (info_key info) of
                        VList xs \<Rightarrow>
                          set_inputs (bunch_setattr (inputs n) (info_key info)
                                        (VList (xs[i := VStr newfile]))) n
                      | other \<Rightarrow> n)
                else set_inputs (bunch_setattr (inputs n) (info_key info) (VStr newfile)) n)
      in relink_files E outdir info islist rest n1 w1)"

fun relink_inputs :: "env \<Rightarrow> string \<Rightarrow> input_info list \<Rightarrow> node \<Rightarrow> world \<Rightarrow> node \<times> world" where
  "relink_inputs E outdir [] n w = (n, w)"
| "relink_inputs E outdir (info # infos) n w =
     (let fls = bunch_get (inputs n) (info_key info)
      in if truthy fls
         then (let infiles = (case fls of VList xs \<Rightarrow> xs | other \<Rightarrow> [fls])
               in case relink_files E outdir info (is_list fls) (enumerate 0 infiles) n w of
                    (n1, w1) \<Rightarrow> relink_inputs E outdir infos n1 w1)
         else relink_inputs E outdir infos n w)"

section \<open>Running the interface\<close>

text \<open>\<^verbatim>\<open>xs.insert(i, x)\<close>: before position \<^verbatim>\<open>i\<close>, at the end when the list is shorter.\<close>

definition py_insert :: "nat \<Rightarrow> 'a \<Rightarrow> 'a list \<Rightarrow> 'a list" where
  "py_insert i x xs = take i xs @ x # drop i xs"

definition slot_insert :: "nat \<Rightarrow> 'a \<Rightarrow> 'a slot \<Rightarrow> 'a slot" where
  "slot_insert i x s = (case s of SList xs \<Rightarrow> SList (py_insert i x xs) | other \<Rightarrow> other)"

definition update_result :: "(interface_result \<Rightarrow> interface_result) \<Rightarrow> node \<Rightarrow> node" where
  "update_result f n = n\<lparr>result := map_option f (result n)\<rparr>"

text \<open>The coercion of an iteration field's value to a list.\<close>

definition iterval_of :: "pyval \<Rightarrow> pyval list" where
  "iterval_of v = (case v of VList xs \<Rightarrow> xs | other \<Rightarrow> [v])"

fun collect_itervals ::
  "bunch \<Rightarrow> string list \<Rightarrow> (string \<times> pyval list) list \<Rightarrow> (string \<times> bool) list
     \<Rightarrow> (string \<times> pyval list) list \<times> (string \<times> bool) list" where
  "collect_itervals b [] itervals notlist = (itervals, notlist)"
| "collect_itervals b (field # flds) itervals notlist =
     collect_itervals b flds
       (AList.update field (iterval_of (bunch_get b field)) itervals)
       (AList.update field (\<not> is_list (bunch_get b field)) notlist)"

text \<open>The loop over \<^verbatim>\<open>self.iterfield\<close> inside iteration \<^verbatim>\<open>i\<close>.\<close>

fun assign_fields ::
  "env \<Rightarrow> string \<Rightarrow> (string \<times> pyval list) list \<Rightarrow> nat \<Rightarrow> string list \<Rightarrow> node \<Rightarrow> world
     \<Rightarrow> (exn + unit) \<times> node \<times> world" where
  "assign_fields E subdir itervals i [] n w = (Inr (), n, w)"
| "assign_fields E subdir itervals i (field # flds) n w =
     (case map_of itervals field of
        None \<Rightarrow> (Inl KeyError, n, w)
      | Some vals \<Rightarrow>
          if i < length vals
          then (if disk_based n
                then (case copyfiles E (vals ! i) (VList [VStr subdir]) False (filesystem w) of
                        (newfiles, fs1) \<Rightarrow>
                          assign_fields E subdir itervals i flds
                            (set_input field (list_to_filename E newfiles) n)
                            (w\<lparr>filesystem := fs1\<rparr>))
                else assign_fields E subdir itervals i flds (set_input field (vals ! i) n) w)
          else (Inl IndexError, n, w))"

text \<open>
  The loop over an adapter's outputs: an existing list takes the value by \<^verbatim>\<open>insert\<close>,
  anything else (\<^verbatim>\<open>None\<close> for a new key) raises \<^verbatim>\<open>AttributeError\<close> and the key is set to
  a one-element list.
\<close>

fun add_outputs :: "nat \<Rightarrow> bunch \<Rightarrow> bunch \<Rightarrow> bunch" where
  "add_outputs i [] out = out"
| "add_outputs i ((key, val) # rest) out =
     add_outputs i rest
       (case bunch_get out key of
          VList xs \<Rightarrow> bunch_setattr out key (VList (py_insert i val xs))
        | other \<Rightarrow> bunch_setattr out key (VList [val]))"

text \<open>Entering the subdirectory of iteration \<^verbatim>\<open>i\<close> (disk based nodes only).\<close>

definition enter_subdir ::
  "string option \<Rightarrow> nat \<Rightarrow> string option \<Rightarrow> node \<Rightarrow> world \<Rightarrow> exn + (string \<times> string option \<times> world)" where
  "enter_subdir basewd i cwd n w =
     (if disk_based n
      then (case basewd of
              None \<Rightarrow> Inl AttributeError
            | Some b \<Rightarrow>
                let subdir = path_join b (hd (iterfield n) @ ''_'' @ string_of_nat i);
                    w1 = (if \<not> path_exists w subdir then os_mkdir subdir w else w)
                in Inr (subdir, Some subdir, os_chdir subdir w1))
      else Inr ([], cwd, w))"

text \<open>
  The loop over \<^verbatim>\<open>enumerate(itervals[self.iterfield[0]])\<close>. The local variable \<^verbatim>\<open>cwd\<close> is
  part of the loop's state. A nonzero return code raises at once.
\<close>

fun iterate ::
  "env \<Rightarrow> bool \<Rightarrow> string option \<Rightarrow> (string \<times> pyval list) list \<Rightarrow> nat list \<Rightarrow> string option
     \<Rightarrow> node \<Rightarrow> world \<Rightarrow> (exn + string option) \<times> node \<times> world" where
  "iterate E execute basewd itervals [] cwd n w = (Inr cwd, n, w)"
| "iterate E execute basewd itervals (i # rest) cwd n w =
     (case enter_subdir basewd i cwd n w of
        Inl e \<Rightarrow> (Inl e, n, w)
      | Inr (subdir, cwd1, w1) \<Rightarrow>
          (case assign_fields E subdir itervals i (iterfield n) n w1 of
             (Inl e, n2, w2) \<Rightarrow> (Inl e, n2, w2)
           | (Inr u, n2, w2) \<Rightarrow>
               if execute
               then (let r = if_run (interface n2) (inputs n2) cwd1 (getcwd w2) (filesystem w2);
                         w3 = w2\<lparr>trace := trace w2 @ [Invoked (inputs n2) cwd1 r]\<rparr>
                     in if returncode (a_runtime r) \<noteq> 0
                        then (Inl (RuntimeError (stderr (a_runtime r))),
                              n2\<lparr>itervals_attr := Some itervals\<rparr>, w3)
                        else iterate E execute basewd itervals rest cwd1
                               (update_result
                                  (\<lambda>res. res\<lparr>r_interface := slot_insert i (a_interface r) (r_interface res),
                                             r_runtime := slot_insert i (a_runtime r) (r_runtime res),
                                             r_outputs := add_outputs i (a_outputs r) (r_outputs res)\<rparr>)
                                  n2)
                               w3)
               else (let outs = aggregate_outputs (interface n2) (inputs n2) (getcwd w2) (filesystem w2);
                         w3 = w2\<lparr>trace := trace w2 @ [Collected outs]\<rparr>
                     in iterate E execute basewd itervals rest cwd1
                          (update_result
                             (\<lambda>res. res\<lparr>r_outputs := add_outputs i outs (r_outputs res)\<rparr>) n2)
                          w3)))"

text \<open>Restoring the inputs; \<^verbatim>\<open>pop()\<close> takes the last element and fails on an empty list.\<close>

fun restore_inputs ::
  "(string \<times> pyval list) list \<Rightarrow> (string \<times> bool) list \<Rightarrow> string list \<Rightarrow> node \<Rightarrow> (exn + unit) \<times> node" where
  "restore_inputs itervals notlist [] n = (Inr (), n)"
| "restore_inputs itervals notlist (field # flds) n =
     (case map_of notlist field of
        None \<Rightarrow> (Inl KeyError, n)
      | Some nl \<Rightarrow>
          (case map_of itervals field of
             None \<Rightarrow> (Inl KeyError, n)
           | Some vals \<Rightarrow>
               if nl
               then (if vals = [] then (Inl IndexError, n)
                     else restore_inputs (AList.update field (butlast vals) itervals) notlist flds
                            (set_input field (last vals) n))
               else restore_inputs itervals notlist flds (set_input field (VList vals) n)))"

text \<open>\<^verbatim>\<open>if cwd:\<close> for a value that is \<^verbatim>\<open>None\<close> or a string.\<close>

definition cwd_given :: "string option \<Rightarrow> bool" where
  "cwd_given c = (case c of None \<Rightarrow> False | Some s \<Rightarrow> s \<noteq> [])"

definition leave :: "string option \<Rightarrow> string \<Rightarrow> world \<Rightarrow> world" where
  "leave cwd old_cwd w = (if cwd_given cwd then os_chdir old_cwd w else w)"

text \<open>The first lines of \<^verbatim>\<open>_run_interface\<close>: the directory to work in.\<close>

definition enter_cwd ::
  "env \<Rightarrow> string option \<Rightarrow> node \<Rightarrow> world \<Rightarrow> string option \<times> node \<times> world" where
  "enter_cwd E cwd n w =
     (let w1 = (case cwd of None \<Rightarrow> w | Some c \<Rightarrow> if c \<noteq> [] then os_chdir c w else w)
      in if \<not> cwd_given cwd \<and> disk_based n
         then (case output_directory E n w1 of
                 (d, n1, w2) \<Rightarrow> (Some d, n1, os_chdir d w2))
         else (cwd, n, w1))"

text \<open>\<^verbatim>\<open>_run_interface\<close>.\<close>

definition run_interface ::
  "env \<Rightarrow> bool \<Rightarrow> string option \<Rightarrow> node \<Rightarrow> world \<Rightarrow> (exn + unit) \<times> node \<times> world" where
  "run_interface E execute cwd_arg n0 w0 =
     (let old_cwd = getcwd w0
      in case enter_cwd E cwd_arg n0 w0 of
           (cwd, n, w) \<Rightarrow>
             if iterfield n \<noteq> []
             then (case collect_itervals (inputs n) (iterfield n) [] [] of
                     (itervals, notlist) \<Rightarrow>
                       (case map_of itervals (hd (iterfield n)) of
                          None \<Rightarrow> (Inl KeyError, n, w)
                        | Some vals \<Rightarrow>
                            (case iterate E execute cwd itervals [0..<length vals] cwd
                                    (n\<lparr>result := Some \<lparr>r_interface = SList [], r_runtime = SList [],
                                                       r_outputs = []\<rparr>\<rparr>) w of
                               (Inl e, n3, w3) \<Rightarrow> (Inl e, n3, w3)
                             | (Inr cwd2, n3, w3) \<Rightarrow>
                                 (case restore_inputs itervals notlist (iterfield n3) n3 of
                                    (Inl e, n4) \<Rightarrow> (Inl e, n4, w3)
                                  | (Inr u, n4) \<Rightarrow> (Inr (), n4, leave cwd2 old_cwd w3)))))
             else if execute
             then (let r = if_run (interface n) (inputs n) cwd (getcwd w) (filesystem w);
                       w3 = w\<lparr>trace := trace w @ [Invoked (inputs n) cwd r]\<rparr>;
                       n3 = n\<lparr>result := Some \<lparr>r_interface = SOne (a_interface r),
                                              r_runtime = SOne (a_runtime r),
                                              r_outputs = a_outputs r\<rparr>\<rparr>
                   in if returncode (a_runtime r) \<noteq> 0
                      then (Inl (RuntimeError (stderr (a_runtime r))), n3, w3)
                      else (Inr (), n3, leave cwd old_cwd w3))
             else (let aggouts = aggregate_outputs (interface n) (inputs n) (getcwd w) (filesystem w);
                       w3 = w\<lparr>trace := trace w @ [Collected aggouts]\<rparr>;
                       n3 = n\<lparr>result := Some \<lparr>r_interface = SNone, r_runtime = SNone,
                                              r_outputs = aggouts\<rparr>\<rparr>
                   in (Inr (), n3, leave cwd old_cwd w3)))"

section \<open>The run of a node\<close>

text \<open>
  The overall return code after an execution that returned: the maximum over a list of
  runtimes, starting from 0, or the return code of the one runtime.
\<close>

definition overall_returncode :: "interface_result option \<Rightarrow> exn + int" where
  "overall_returncode res =
     (case res of
        None \<Rightarrow> Inl AttributeError
      | Some r \<Rightarrow>
          (case r_runtime r of
             SList rts \<Rightarrow> Inr (fold (\<lambda>rt rc. max (returncode rt) rc) rts 0)
           | SOne rt \<Rightarrow> Inr (returncode rt)
           | SNone \<Rightarrow> Inl AttributeError))"

text \<open>
  The error of \<^verbatim>\<open>run\<close> for a nonzero overall return code; \<^verbatim>\<open>.stderr\<close> of a list of
  runtimes is an \<^verbatim>\<open>AttributeError\<close>.
\<close>

definition could_not_run :: "env \<Rightarrow> node \<Rightarrow> exn" where
  "could_not_run E n =
     (case result n of
        Some r \<Rightarrow>
          (case r_runtime r of
             SOne rt \<Rightarrow>
               StandardError (''Could not run '' @ name n
                 @ [CHR 0x0A] @ ''with inputs:'' @ [CHR 0x0A] @ str_of_bunch E (inputs n)
                 @ [CHR 0x0A, CHR 0x09] @ ''stderr: '' @ stderr rt)
           | other \<Rightarrow> AttributeError)
      | None \<Rightarrow> AttributeError)"

text \<open>The branch of \<^verbatim>\<open>run\<close> that executes.\<close>

definition run_execute ::
  "env \<Rightarrow> string \<Rightarrow> pyval \<Rightarrow> string \<Rightarrow> node \<Rightarrow> world
     \<Rightarrow> (exn + interface_result option) \<times> node \<times> world" where
  "run_execute E outdir hashed_inputs hashfile n w =
     (let w1 = w\<lparr>filesystem := cleandir E outdir (filesystem w)\<rparr>
      in case (case get_input_info (interface n) of
                 None \<Rightarrow> (n, w1)
               | Some infos \<Rightarrow> stage_inputs E outdir infos n w1) of
           (n2, w2) \<Rightarrow>
             (case run_interface E True (Some outdir) n2 w2 of
                (Inl e, n3, w3) \<Rightarrow> (Inl e, n3, w3)
              | (Inr u, n3, w3) \<Rightarrow>
                  (case overall_returncode (result n3) of
                     Inl e \<Rightarrow> (Inl e, n3, w3)
                   | Inr rc \<Rightarrow>
                       if rc = 0
                       then (case save_hashfile E hashfile hashed_inputs w3 of
                               (Inl e, w4) \<Rightarrow> (Inl e, n3, w4)
                             | (Inr u2, w4) \<Rightarrow> (Inr (result n3), n3, w4))
                       else (Inl (could_not_run E n3), n3, w3))))"

text \<open>The branch of \<^verbatim>\<open>run\<close> that skips execution and collects the outputs.\<close>

definition run_skip ::
  "env \<Rightarrow> string \<Rightarrow> node \<Rightarrow> world \<Rightarrow> (exn + interface_result option) \<times> node \<times> world" where
  "run_skip E outdir n w =
     (case (case get_input_info (interface n) of
              None \<Rightarrow> (n, w)
            | Some infos \<Rightarrow> relink_inputs E outdir infos n w) of
        (n2, w2) \<Rightarrow>
          (case run_interface E False (Some outdir) n2 w2 of
             (Inl e, n3, w3) \<Rightarrow> (Inl e, n3, w3)
           | (Inr u, n3, w3) \<Rightarrow> (Inr (result n3), n3, w3)))"

text \<open>\<^verbatim>\<open>run\<close>; \<^verbatim>\<open>updatehash\<close> is only tested for truth.\<close>

definition run ::
  "env \<Rightarrow> bool \<Rightarrow> node \<Rightarrow> world \<Rightarrow> (exn + interface_result option) \<times> node \<times> world" where
  "run E updatehash n0 w0 =
     (if disk_based n0
      then (case resolve_marker E n0 w0 of
              ((outdir, hashed_inputs, hashfile), n, w) \<Rightarrow>
                (case (if updatehash then save_hashfile E hashfile hashed_inputs w
                       else (Inr (), w)) of
                   (Inl e, w1) \<Rightarrow> (Inl e, n, w1)
                 | (Inr u, w1) \<Rightarrow>
                     if \<not> updatehash \<and> (overwrite n = Some True \<or> \<not> path_exists w1 hashfile)
                     then run_execute E outdir hashed_inputs hashfile n w1
                     else run_skip E outdir n w1))
      else (case run_interface E True None n0 w0 of
              (Inl e, n3, w3) \<Rightarrow> (Inl e, n3, w3)
            | (Inr u, n3, w3) \<Rightarrow> (Inr (result n3), n3, w3)))"

section \<open>Reading the log\<close>

definition is_invocation :: "event \<Rightarrow> bool" where
  "is_invocation e = (case e of Invoked b c r \<Rightarrow> True | other \<Rightarrow> False)"

definition is_write :: "event \<Rightarrow> bool" where
  "is_write e = (case e of Wrote p s \<Rightarrow> True | other \<Rightarrow> False)"

definition failed :: "event \<Rightarrow> bool" where
  "failed e = (case e of Invoked b c r \<Rightarrow> returncode (a_runtime r) \<noteq> 0 | other \<Rightarrow> False)"

text \<open>
  A stretch of the log without a failed invocation and without a write, and a stretch that
  ends with the failed invocation whose error output the raised error carries.
\<close>

definition quiet :: "event list \<Rightarrow> bool" where
  "quiet evs = (\<forall>e\<in>set evs. \<not> failed e \<and> \<not> is_write e)"

definition aborted :: "exn + 'a \<Rightarrow> event list \<Rightarrow> bool" where
  "aborted out evs =
     (\<exists>pre b c r. evs = pre @ [Invoked b c r] \<and> quiet pre \<and> returncode (a_runtime r) \<noteq> 0
                  \<and> out = Inl (RuntimeError (stderr (a_runtime r))))"

text \<open>What stays the same in a node while it runs.\<close>

definition same_shape :: "node \<Rightarrow> node \<Rightarrow> bool" where
  "same_shape n n' =
     (iterfield n' = iterfield n \<and> disk_based n' = disk_based n \<and> name n' = name n
      \<and> overwrite n' = overwrite n
      \<and> get_input_info (interface n') = get_input_info (interface n)
      \<and> (\<forall>k. bunch_hasattr (inputs n') k = bunch_hasattr (inputs n) k))"











text \<open>Two bunches whose values agree in being lists and in the number of iteration values.\<close>

definition same_lengths :: "bunch \<Rightarrow> bunch \<Rightarrow> bool" where
  "same_lengths b b' =
     (\<forall>k. is_list (bunch_get b' k) = is_list (bunch_get b k)
          \<and> length (iterval_of (bunch_get b' k)) = length (iterval_of (bunch_get b k)))"

section \<open>A sample node\<close>

text \<open>
  A concrete environment, adapter and node on which the definitions are evaluated. The
  helpers copy a file to the directory it is staged in and name the copy after it. The
  adapter returns the integer held by the input \<^verbatim>\<open>code\<close> as its return code (without that
  input, it fails on an input file named \<^verbatim>\<open>bad.nii\<close>) and the value of the input \<^verbatim>\<open>frac\<close> as
  its output \<^verbatim>\<open>out\<close>.
\<close>

definition basename :: "string \<Rightarrow> string" where
  "basename p = last (split_on CHR ''/'' p)"

definition sample_presuffix :: "pyval \<Rightarrow> string \<Rightarrow> string" where
  "sample_presuffix f newpath = (case f of VStr s \<Rightarrow> path_join newpath (basename s) | other \<Rightarrow> newpath)"

definition sample_to_list :: "pyval \<Rightarrow> pyval" where
  "sample_to_list v = (case v of VStr s \<Rightarrow> VList [v] | VList xs \<Rightarrow> v | other \<Rightarrow> VNone)"

definition sample_to_filename :: "pyval \<Rightarrow> pyval" where
  "sample_to_filename v = (case v of VList [x] \<Rightarrow> x | other \<Rightarrow> v)"

definition sample_copyfiles :: "pyval \<Rightarrow> pyval \<Rightarrow> bool \<Rightarrow> fs \<Rightarrow> pyval \<times> fs" where
  "sample_copyfiles src dst cp f =
     (let d = (case sample_to_list dst of VList (VStr p # rest) \<Rightarrow> p | other \<Rightarrow> []);
          news = map (\<lambda>x. sample_presuffix x d) (iterval_of (sample_to_list src))
      in (VList (map VStr news), f\<lparr>files := fold (\<lambda>p m. m(p \<mapsto> [])) news (files f)\<rparr>))"

definition sample_env :: "bool \<Rightarrow> bool \<Rightarrow> env" where
  "sample_env openable serialisable =
     \<lparr> mkdtemp = (\<lambda>f. ''/tmp/t''),
       abspath = (\<lambda>c p. p),
       get_bunch_hash = (\<lambda>b f. (VDict b, ''ab'')),
       cleandir = (\<lambda>d f. f),
       copyfiles = sample_copyfiles,
       filename_to_list = sample_to_list,
       list_to_filename = sample_to_filename,
       fname_presuffix = sample_presuffix,
       json_dumps = (\<lambda>v. if serialisable then Some ''{}'' else None),
       str_of = (\<lambda>v. ''str''),
       str_of_bunch = (\<lambda>b. ''inputs''),
       can_open = (\<lambda>p. openable) \<rparr>"

definition sample_outputs :: "bunch \<Rightarrow> bunch" where
  "sample_outputs b = [(''out'', bunch_get b ''frac'')]"

definition sample_run :: "bunch \<Rightarrow> string option \<Rightarrow> string \<Rightarrow> fs \<Rightarrow> adapter_result" where
  "sample_run b c d f =
     \<lparr> a_interface = ''Bet'',
       a_runtime = \<lparr> returncode =
                       (case bunch_get b ''code'' of
                          VInt i \<Rightarrow> i
                        | other \<Rightarrow> (if sample_presuffix (bunch_get b ''infile'') [] = ''bad.nii''
                                    then 1 else 0)),
                     stderr = ''boom'' \<rparr>,
       a_outputs = sample_outputs b \<rparr>"

definition sample_interface :: "pyval \<Rightarrow> pyval \<Rightarrow> interface" where
  "sample_interface frac code =
     \<lparr> class_name = ''Bet'',
       class_module = ''nipype.interfaces.fsl'',
       if_inputs = [(''frac'', frac), (''code'', code)],
       get_input_info = None,
       if_run = sample_run,
       aggregate_outputs = (\<lambda>b d f. sample_outputs b) \<rparr>"

definition sample_node :: "pyval \<Rightarrow> pyval \<Rightarrow> string list \<Rightarrow> bool \<Rightarrow> node" where
  "sample_node frac code flds db =
     \<lparr> interface = sample_interface frac code, result = None, iterables = [], iterfield = flds,
       parameterization = VNone, disk_based = db,
       output_directory_base = (if db then Some ''/wf'' else None),
       overwrite = (if db then Some False else None),
       name = ''N'', node_id = ''N'', itervals_attr = None, attrs = [] \<rparr>"

definition sample_world :: world where
  "sample_world =
     \<lparr> getcwd = ''/home'', filesystem = \<lparr> dirs = {}, files = Map.empty \<rparr>, trace = [] \<rparr>"

text \<open>A disk based node that iterates over the files of its input \<^verbatim>\<open>infile\<close>.\<close>

definition iterating_node :: "string list \<Rightarrow> node" where
  "iterating_node paths =
     \<lparr> interface = \<lparr> class_name = ''Bet'',
                     class_module = ''nipype.interfaces.fsl'',
                     if_inputs = [(''infile'', VList (map VStr paths)), (''frac'', VInt 5)],
                     get_input_info = None,
                     if_run = sample_run,
                     aggregate_outputs = (\<lambda>b d f. sample_outputs b) \<rparr>,
       result = None, iterables = [], iterfield = [''infile''],
       parameterization = VNone, disk_based = True,
       output_directory_base = Some ''/wf'', overwrite = Some False,
       name = ''N'', node_id = ''N'', itervals_attr = None, attrs = [] \<rparr>"


section \<open>Construction\<close>

text \<open>
  C9. Constructing a node without an interface raises at once, and so does constructing
  one with a base directory when it is not disk based; no node is returned.
\<close>

theorem init_rejects_bad_configuration:
  "init None its flds db bd ow nm = Inl (Exception ''Interface must be provided'')
   \<and> init (Some iface) its flds False (Some d) ow nm
       = Inl (ValueError ''Setting base_directory requires a disk based interface'')
   \<and> (\<exists>e. init io its flds False (Some d) ow nm = Inl e)"
  by (cases io) (simp_all add: init_def)

theorem init_rejects_bad_configuration_witness:
  "init None [] [] True (Some ''/wf'') False None = Inl (Exception ''Interface must be provided'')
   \<and> init (Some (sample_interface (VInt 5) (VInt 0))) [] [] False (Some ''/wf'') False None
       = Inl (ValueError ''Setting base_directory requires a disk based interface'')"
  using init_rejects_bad_configuration
          [of "[]" "[]" True "Some ''/wf''" False None "sample_interface (VInt 5) (VInt 0)" "''/wf''" None]
  by simp

section \<open>Outputs before any result\<close>



section \<open>The marker is written on a best effort basis\<close>

lemma save_hashfile_result:
  "save_hashfile E hashfile hashed_inputs w =
     (Inr (),
      if \<not> can_open E hashfile then w
      else case json_dumps E hashed_inputs of
             None \<Rightarrow> write_file hashfile (str_of E hashed_inputs) (write_file hashfile [] w)
           | Some s \<Rightarrow> write_file hashfile s w)"
  by (simp add: save_hashfile_def save_json_def split: option.splits)

text \<open>
  C7. \<^verbatim>\<open>_save_hashfile\<close> never raises. When the hashed inputs cannot be serialised, the
  marker file ends up holding their string form; when the file cannot be opened, nothing
  changes.
\<close>

theorem save_hashfile_never_raises:
  "fst (save_hashfile E hashfile hashed_inputs w) = Inr ()
   \<and> (can_open E hashfile \<and> json_dumps E hashed_inputs = None \<longrightarrow>
        files (filesystem (snd (save_hashfile E hashfile hashed_inputs w))) hashfile
          = Some (str_of E hashed_inputs))
   \<and> (\<not> can_open E hashfile \<longrightarrow> snd (save_hashfile E hashfile hashed_inputs w) = w)"
  by (simp add: save_hashfile_result write_file_def)

theorem save_hashfile_never_raises_witness:
  "can_open (sample_env True False) ''/wf/N/_0xab.json''
   \<and> json_dumps (sample_env True False) (VDict []) = None
   \<and> fst (save_hashfile (sample_env True False) ''/wf/N/_0xab.json'' (VDict []) sample_world) = Inr ()
   \<and> files (filesystem (snd (save_hashfile (sample_env True False) ''/wf/N/_0xab.json'' (VDict [])
                                 sample_world))) ''/wf/N/_0xab.json'' = Some ''str''
   \<and> \<not> can_open (sample_env False True) ''/wf/N/_0xab.json''
   \<and> snd (save_hashfile (sample_env False True) ''/wf/N/_0xab.json'' (VDict []) sample_world)
       = sample_world"
  using save_hashfile_never_raises [of "sample_env True False" "''/wf/N/_0xab.json''" "VDict []" sample_world]
        save_hashfile_never_raises [of "sample_env False True" "''/wf/N/_0xab.json''" "VDict []" sample_world]
  by (simp add: sample_env_def)

section \<open>What a run adds to the log\<close>

lemma trace_os [simp]:
  "trace (os_mkdir p w) = trace w" "trace (os_chdir p w) = trace w" "trace (leave c old w) = trace w"
  by (simp_all add: os_mkdir_def os_chdir_def leave_def)

lemma output_directory_trace:
  "output_directory E n w = (d, n', w') \<Longrightarrow> trace w' = trace w"
  by (auto simp: output_directory_def Let_def split: option.splits)

lemma make_output_dir_trace:
  "make_output_dir E d w = (d', w') \<Longrightarrow> trace w' = trace w"
  by (auto simp: make_output_dir_def split: if_splits)

lemma resolve_marker_trace:
  "resolve_marker E n w = (x, n', w') \<Longrightarrow> trace w' = trace w"
proof -
  assume a: "resolve_marker E n w = (x, n', w')"
  obtain d0 n1 w1 where od: "output_directory E n w = (d0, n1, w1)"
    by (cases "output_directory E n w") auto
  obtain d w2 where md: "make_output_dir E d0 w1 = (d, w2)"
    by (cases "make_output_dir E d0 w1") auto
  from a od md have "w' = w2"
    by (auto simp: resolve_marker_def split: prod.splits)
  then show ?thesis
    using output_directory_trace [OF od] make_output_dir_trace [OF md] by simp
qed

lemma stage_inputs_trace:
  "stage_inputs E outdir infos n w = (n', w') \<Longrightarrow> trace w' = trace w"
proof (induction infos arbitrary: n w)
  case Nil
  then show ?case by simp
next
  case (Cons info infos)
  then show ?case
    by (auto simp: Let_def split: if_splits prod.splits)
qed

lemma relink_files_trace:
  "relink_files E outdir info islist ifs n w = (n', w') \<Longrightarrow> trace w' = trace w"
proof (induction ifs arbitrary: n w)
  case Nil
  then show ?case by simp
next
  case (Cons a ifs)
  obtain i f where a: "a = (i, f)" by (cases a)
  from Cons.prems obtain n1 w1 where
    r: "relink_files E outdir info islist ifs n1 w1 = (n', w')" and t: "trace w1 = trace w"
    unfolding a relink_files.simps Let_def
    by (cases "path_exists w (fname_presuffix E f outdir)") auto
  from Cons.IH [OF r] t show ?case by simp
qed

lemma relink_inputs_trace:
  "relink_inputs E outdir infos n w = (n', w') \<Longrightarrow> trace w' = trace w"
proof (induction infos arbitrary: n w)
  case Nil
  then show ?case by simp
next
  case (Cons info infos)
  then show ?case
    by (auto simp: Let_def split: if_splits prod.splits dest: relink_files_trace)
qed

lemma assign_fields_trace:
  "assign_fields E subdir iv i flds n w = (out, n', w') \<Longrightarrow> trace w' = trace w"
proof (induction flds arbitrary: n w)
  case Nil
  then show ?case by simp
next
  case (Cons f flds)
  then show ?case
    by (auto split: option.splits if_splits prod.splits)
qed

lemma enter_subdir_trace:
  "enter_subdir bw i cwd n w = Inr (s, c, w') \<Longrightarrow> trace w' = trace w"
proof (cases "disk_based n")
  case True
  assume a: "enter_subdir bw i cwd n w = Inr (s, c, w')"
  with True obtain b where b: "bw = Some b"
    by (cases bw) (simp_all add: enter_subdir_def)
  define sd where "sd = path_join b (hd (iterfield n) @ ''_'' @ string_of_nat i)"
  from a True b have "w' = os_chdir sd (if \<not> path_exists w sd then os_mkdir sd w else w)"
    by (auto simp: enter_subdir_def Let_def sd_def)
  then show ?thesis by simp
next
  case False
  assume "enter_subdir bw i cwd n w = Inr (s, c, w')"
  with False show ?thesis by (simp add: enter_subdir_def)
qed

lemma enter_cwd_trace:
  "enter_cwd E cwd n w = (c, n', w') \<Longrightarrow> trace w' = trace w"
proof -
  assume a: "enter_cwd E cwd n w = (c, n', w')"
  define w1 where "w1 = (case cwd of None \<Rightarrow> w | Some c \<Rightarrow> if c \<noteq> [] then os_chdir c w else w)"
  have t1: "trace w1 = trace w"
    by (simp add: w1_def split: option.splits)
  show ?thesis
  proof (cases "\<not> cwd_given cwd \<and> disk_based n")
    case True
    obtain d n1 w2 where od: "output_directory E n w1 = (d, n1, w2)"
      by (cases "output_directory E n w1") auto
    from a True od have "w' = os_chdir d w2"
      by (simp add: enter_cwd_def w1_def)
    then show ?thesis using output_directory_trace [OF od] t1 by simp
  next
    case False
    with a have "w' = w1" by (auto simp: enter_cwd_def w1_def)
    then show ?thesis using t1 by simp
  qed
qed

lemma quiet_simps [simp]:
  "quiet []"
  "quiet (evs @ evs') = (quiet evs \<and> quiet evs')"
  "quiet [Collected outs]"
  "quiet [Invoked b c r] = (returncode (a_runtime r) = 0)"
  "\<not> quiet [Wrote p s]"
  by (auto simp: quiet_def failed_def is_write_def)

lemma aborted_prepend:
  "quiet pre \<Longrightarrow> aborted out evs \<Longrightarrow> aborted out (pre @ evs)"
  unfolding aborted_def
  by (metis append.assoc quiet_simps(2))

lemma iterate_events:
  "iterate E ex bw iv idxs cwd n w = (out, n', w') \<Longrightarrow>
   \<exists>evs. trace w' = trace w @ evs
       \<and> (\<not> ex \<longrightarrow> (\<forall>e\<in>set evs. \<not> is_invocation e))
       \<and> (quiet evs \<or> aborted out evs)"
proof (induction idxs arbitrary: cwd n w)
  case Nil
  then show ?case by simp
next
  case (Cons i idxs)
  show ?case
  proof (cases "enter_subdir bw i cwd n w")
    case (Inl e)
    with Cons.prems show ?thesis by simp
  next
    case (Inr t)
    then obtain subdir cwd1 w1 where es: "enter_subdir bw i cwd n w = Inr (subdir, cwd1, w1)"
      by (cases t) auto
    have t1: "trace w1 = trace w" using es by (rule enter_subdir_trace)
    obtain o2 n2 w2 where af: "assign_fields E subdir iv i (iterfield n) n w1 = (o2, n2, w2)"
      by (cases "assign_fields E subdir iv i (iterfield n) n w1") auto
    have t2: "trace w2 = trace w" using assign_fields_trace [OF af] t1 by simp
    show ?thesis
    proof (cases o2)
      case (Inl e)
      with Cons.prems es af t2 show ?thesis by simp
    next
      case (Inr u)
      show ?thesis
      proof (cases ex)
        case True
        define r where "r = if_run (interface n2) (inputs n2) cwd1 (getcwd w2) (filesystem w2)"
        define w3 where "w3 = w2\<lparr>trace := trace w2 @ [Invoked (inputs n2) cwd1 r]\<rparr>"
        show ?thesis
        proof (cases "returncode (a_runtime r) = 0")
          case False
          with Cons.prems es af Inr True
          have "out = Inl (RuntimeError (stderr (a_runtime r)))" "w' = w3"
            by (simp_all add: Let_def r_def w3_def)
          then have "trace w' = trace w @ [Invoked (inputs n2) cwd1 r]"
            and "aborted out [Invoked (inputs n2) cwd1 r]"
            using False t2 by (auto simp: w3_def aborted_def)
          then show ?thesis using True by blast
        next
          case rc0: True
          from Cons.prems es af Inr True rc0
          obtain n3 where "iterate E ex bw iv idxs cwd1 n3 w3 = (out, n', w')"
            by (simp add: Let_def r_def w3_def)
          from Cons.IH [OF this] obtain evs where
            evs: "trace w' = trace w3 @ evs" "quiet evs \<or> aborted out evs" by blast
          have "trace w' = trace w @ (Invoked (inputs n2) cwd1 r # evs)"
            using evs t2 by (simp add: w3_def)
          moreover have "quiet (Invoked (inputs n2) cwd1 r # evs) \<or> aborted out (Invoked (inputs n2) cwd1 r # evs)"
            using evs(2) rc0 aborted_prepend [of "[Invoked (inputs n2) cwd1 r]" out evs]
            quiet_simps(2) [of "[Invoked (inputs n2) cwd1 r]" evs] by auto
          ultimately show ?thesis using True by blast
        qed
      next
        case False
        define outs where "outs = aggregate_outputs (interface n2) (inputs n2) (getcwd w2) (filesystem w2)"
        define w3 where "w3 = w2\<lparr>trace := trace w2 @ [Collected outs]\<rparr>"
        from Cons.prems es af Inr False
        obtain n3 where "iterate E ex bw iv idxs cwd1 n3 w3 = (out, n', w')"
          by (simp add: Let_def outs_def w3_def)
        from Cons.IH [OF this] False obtain evs where
          evs: "trace w' = trace w3 @ evs" "quiet evs \<or> aborted out evs" "\<forall>e\<in>set evs. \<not> is_invocation e" by blast
        have "trace w' = trace w @ (Collected outs # evs)"
          using evs t2 by (simp add: w3_def)
        moreover have "quiet (Collected outs # evs) \<or> aborted out (Collected outs # evs)"
          using evs(2) aborted_prepend [of "[Collected outs]" out evs]
            quiet_simps(2) [of "[Collected outs]" evs] by auto
        moreover have "\<forall>e\<in>set (Collected outs # evs). \<not> is_invocation e"
          using evs(3) by (simp add: is_invocation_def)
        ultimately show ?thesis by blast
      qed
    qed
  qed
qed

lemma aborted_Inl:
  "aborted (Inl e :: exn + 'a) evs \<Longrightarrow> aborted (Inl e :: exn + 'b) evs"
  by (auto simp: aborted_def)

lemma aborted_Inr [simp]: "\<not> aborted (Inr x) evs"
  by (simp add: aborted_def)

lemma run_interface_events:
  assumes "run_interface E ex cwd_arg n0 w0 = (out, n', w')"
  shows "\<exists>evs. trace w' = trace w0 @ evs
       \<and> (\<not> ex \<longrightarrow> (\<forall>e\<in>set evs. \<not> is_invocation e))
       \<and> (quiet evs \<or> aborted out evs)"
proof -
  obtain cwd n w where ec: "enter_cwd E cwd_arg n0 w0 = (cwd, n, w)"
    by (cases "enter_cwd E cwd_arg n0 w0") auto
  have t0: "trace w = trace w0" using ec by (rule enter_cwd_trace)
  show ?thesis
  proof (cases "iterfield n \<noteq> []")
    case True
    obtain iv nl where ci: "collect_itervals (inputs n) (iterfield n) [] [] = (iv, nl)"
      by (cases "collect_itervals (inputs n) (iterfield n) [] []") auto
    show ?thesis
    proof (cases "map_of iv (hd (iterfield n))")
      case None
      with assms ec True ci have "w' = w" by (auto simp: run_interface_def)
      with t0 show ?thesis by simp
    next
      case (Some vals)
      define nr where "nr = n\<lparr>result := Some \<lparr>r_interface = SList [], r_runtime = SList [], r_outputs = []\<rparr>\<rparr>"
      obtain o3 n3 w3 where it: "iterate E ex cwd iv [0..<length vals] cwd nr w = (o3, n3, w3)"
        by (cases "iterate E ex cwd iv [0..<length vals] cwd nr w") auto
      from iterate_events [OF it] obtain evs where
        evs: "trace w3 = trace w @ evs" "\<not> ex \<longrightarrow> (\<forall>e\<in>set evs. \<not> is_invocation e)"
             "quiet evs \<or> aborted o3 evs" by blast
      show ?thesis
      proof (cases o3)
        case (Inl e)
        with assms ec True ci Some it have "out = Inl e" "w' = w3"
          by (auto simp: run_interface_def nr_def)
        with evs Inl t0 aborted_Inl [of e evs] show ?thesis by auto
      next
        case (Inr cwd2)
        with evs have q: "quiet evs" by simp
        obtain o4 n4 where ri: "restore_inputs iv nl (iterfield n3) n3 = (o4, n4)"
          by (cases "restore_inputs iv nl (iterfield n3) n3") auto
        from assms ec True ci Some it Inr ri have "trace w' = trace w3"
          by (cases o4) (auto simp: run_interface_def nr_def)
        with evs q t0 show ?thesis by auto
      qed
    qed
  next
    case False
    show ?thesis
    proof (cases ex)
      case True
      define r where "r = if_run (interface n) (inputs n) cwd (getcwd w) (filesystem w)"
      show ?thesis
      proof (cases "returncode (a_runtime r) = 0")
        case rc0: True
        with assms ec False True have "trace w' = trace w @ [Invoked (inputs n) cwd r]"
          by (auto simp: run_interface_def Let_def r_def)
        moreover have "quiet [Invoked (inputs n) cwd r]" using rc0 by simp
        ultimately show ?thesis using True t0 by auto
      next
        case rc: False
        with assms ec False True have "trace w' = trace w @ [Invoked (inputs n) cwd r]"
          "out = Inl (RuntimeError (stderr (a_runtime r)))"
          by (auto simp: run_interface_def Let_def r_def)
        moreover from this rc have "aborted out [Invoked (inputs n) cwd r]"
          by (auto simp: aborted_def)
        ultimately show ?thesis using True t0 by auto
      qed
    next
      case nex: False
      define outs where "outs = aggregate_outputs (interface n) (inputs n) (getcwd w) (filesystem w)"
      from assms ec False nex have "trace w' = trace w @ [Collected outs]"
        by (auto simp: run_interface_def Let_def outs_def)
      moreover have "quiet [Collected outs]" "\<forall>e\<in>set [Collected outs]. \<not> is_invocation e"
        by (simp_all add: is_invocation_def)
      ultimately show ?thesis using t0 by auto
    qed
  qed
qed

lemma save_hashfile_events:
  "save_hashfile E hashfile hashed_inputs w = (out, w') \<Longrightarrow>
   out = Inr () \<and> (\<exists>ws. trace w' = trace w @ ws \<and> (\<forall>e\<in>set ws. \<exists>s. e = Wrote hashfile s)
      \<and> (can_open E hashfile \<longrightarrow> ws \<noteq> []))"
  by (auto simp: save_hashfile_result write_file_def split: option.splits if_splits)

lemma quiet_not_failed: "quiet evs \<Longrightarrow> \<forall>e\<in>set evs. \<not> failed e"
  by (simp add: quiet_def)

lemma not_invocation_not_failed: "\<not> is_invocation e \<Longrightarrow> \<not> failed e"
  by (cases e) (simp_all add: is_invocation_def failed_def)

lemma write_not_failed: "e = Wrote p s \<Longrightarrow> \<not> failed e \<and> \<not> is_invocation e"
  by (simp add: failed_def is_invocation_def)

lemma run_execute_events:
  assumes "run_execute E outdir hashed_inputs hashfile n w = (out, n', w')"
  shows "\<exists>evs. trace w' = trace w @ evs \<and> ((\<forall>e\<in>set evs. \<not> failed e) \<or> aborted out evs)"
proof -
  let ?w1 = "w\<lparr>filesystem := cleandir E outdir (filesystem w)\<rparr>"
  obtain n2 w2 where st: "(case get_input_info (interface n) of None \<Rightarrow> (n, ?w1)
               | Some infos \<Rightarrow> stage_inputs E outdir infos n ?w1) = (n2, w2)"
    by (cases "(case get_input_info (interface n) of None \<Rightarrow> (n, ?w1)
               | Some infos \<Rightarrow> stage_inputs E outdir infos n ?w1)") auto
  have t2: "trace w2 = trace w"
    using st by (auto split: option.splits dest: stage_inputs_trace)
  obtain o3 n3 w3 where ri: "run_interface E True (Some outdir) n2 w2 = (o3, n3, w3)"
    by (cases "run_interface E True (Some outdir) n2 w2") auto
  from run_interface_events [OF ri] obtain evs where
    evs: "trace w3 = trace w2 @ evs" "quiet evs \<or> aborted o3 evs" by blast
  show ?thesis
  proof (cases o3)
    case (Inl e)
    with assms st ri have "out = Inl e" "w' = w3"
      by (auto simp: run_execute_def Let_def)
    with evs Inl t2 aborted_Inl [of e evs] quiet_not_failed [of evs] show ?thesis by auto
  next
    case (Inr u)
    with evs have q: "quiet evs" by simp
    show ?thesis
    proof (cases "overall_returncode (result n3)")
      case (Inl e)
      with assms st ri Inr have "w' = w3" by (auto simp: run_execute_def Let_def)
      with evs q t2 quiet_not_failed [of evs] show ?thesis by auto
    next
      case rc: (Inr rc)
      show ?thesis
      proof (cases "rc = 0")
        case True
        obtain o4 w4 where sh: "save_hashfile E hashfile hashed_inputs w3 = (o4, w4)"
          by (cases "save_hashfile E hashfile hashed_inputs w3") auto
        from save_hashfile_events [OF sh] obtain ws where
          ws: "o4 = Inr ()" "trace w4 = trace w3 @ ws" "\<forall>e\<in>set ws. \<exists>s. e = Wrote hashfile s" by blast
        from assms st ri Inr rc True sh ws(1) have "w' = w4"
          by (auto simp: run_execute_def Let_def)
        then have "trace w' = trace w @ (evs @ ws)" using ws evs t2 by simp
        moreover have "\<forall>e\<in>set (evs @ ws). \<not> failed e"
          using quiet_not_failed [OF q] ws(3) write_not_failed by auto
        ultimately show ?thesis by blast
      next
        case False
        with assms st ri Inr rc have "w' = w3" by (auto simp: run_execute_def Let_def)
        with evs q t2 quiet_not_failed [of evs] show ?thesis by auto
      qed
    qed
  qed
qed

lemma run_skip_events:
  assumes "run_skip E outdir n w = (out, n', w')"
  shows "\<exists>evs. trace w' = trace w @ evs \<and> (\<forall>e\<in>set evs. \<not> is_invocation e \<and> \<not> is_write e)"
proof -
  obtain n2 w2 where st: "(case get_input_info (interface n) of None \<Rightarrow> (n, w)
               | Some infos \<Rightarrow> relink_inputs E outdir infos n w) = (n2, w2)"
    by (cases "(case get_input_info (interface n) of None \<Rightarrow> (n, w)
               | Some infos \<Rightarrow> relink_inputs E outdir infos n w)") auto
  have t2: "trace w2 = trace w"
    using st by (auto split: option.splits dest: relink_inputs_trace)
  obtain o3 n3 w3 where ri: "run_interface E False (Some outdir) n2 w2 = (o3, n3, w3)"
    by (cases "run_interface E False (Some outdir) n2 w2") auto
  from run_interface_events [OF ri] obtain evs where
    evs: "trace w3 = trace w2 @ evs" "\<forall>e\<in>set evs. \<not> is_invocation e" "quiet evs \<or> aborted o3 evs" by blast
  have "\<not> aborted o3 evs"
    using evs(2) by (auto simp: aborted_def is_invocation_def)
  with evs have q: "quiet evs" by simp
  from assms st ri have "w' = w3"
    by (cases o3) (auto simp: run_skip_def)
  with evs q t2 show ?thesis by (auto simp: quiet_def)
qed

lemma run_events:
  assumes "run E updatehash n0 w0 = (out, n', w')"
  shows "\<exists>evs. trace w' = trace w0 @ evs
       \<and> (updatehash \<and> disk_based n0 \<longrightarrow> (\<forall>e\<in>set evs. \<not> is_invocation e))
       \<and> ((\<forall>e\<in>set evs. \<not> failed e) \<or> aborted out evs)"
proof (cases "disk_based n0")
  case False
  obtain o3 n3 w3 where ri: "run_interface E True None n0 w0 = (o3, n3, w3)"
    by (cases "run_interface E True None n0 w0") auto
  from run_interface_events [OF ri] obtain evs where
    evs: "trace w3 = trace w0 @ evs" "quiet evs \<or> aborted o3 evs" by blast
  show ?thesis
  proof (cases o3)
    case (Inl e)
    with assms False ri have "out = Inl e" "w' = w3" by (auto simp: run_def)
    with evs Inl False aborted_Inl [of e evs] quiet_not_failed [of evs] show ?thesis by auto
  next
    case (Inr u)
    with assms False ri have "w' = w3" by (auto simp: run_def)
    with evs Inr False quiet_not_failed [of evs] show ?thesis by auto
  qed
next
  case True
  obtain outdir hi hf n w where rm: "resolve_marker E n0 w0 = ((outdir, hi, hf), n, w)"
    by (cases "resolve_marker E n0 w0") auto
  have t: "trace w = trace w0" using rm by (rule resolve_marker_trace)
  show ?thesis
  proof (cases updatehash)
    case uh: True
    obtain o1 w1 where sh: "save_hashfile E hf hi w = (o1, w1)"
      by (cases "save_hashfile E hf hi w") auto
    from save_hashfile_events [OF sh] obtain ws where
      ws: "o1 = Inr ()" "trace w1 = trace w @ ws" "\<forall>e\<in>set ws. \<exists>s. e = Wrote hf s" by blast
    from assms True rm uh sh ws(1) have rs: "run_skip E outdir n w1 = (out, n', w')"
      by (simp add: run_def)
    from run_skip_events [OF rs] obtain evs where
      evs: "trace w' = trace w1 @ evs" "\<forall>e\<in>set evs. \<not> is_invocation e \<and> \<not> is_write e" by blast
    have "trace w' = trace w0 @ (ws @ evs)" using evs ws t by simp
    moreover have "\<forall>e\<in>set (ws @ evs). \<not> is_invocation e"
      using evs(2) ws(3) write_not_failed by auto
    ultimately show ?thesis using not_invocation_not_failed by blast
  next
    case nuh: False
    show ?thesis
    proof (cases "overwrite n = Some True \<or> \<not> path_exists w hf")
      case ex: True
      with assms True rm nuh have "run_execute E outdir hi hf n w = (out, n', w')"
        by (simp add: run_def)
      from run_execute_events [OF this] t nuh show ?thesis by auto
    next
      case sk: False
      with assms True rm nuh have "run_skip E outdir n w = (out, n', w')"
        by (simp add: run_def)
      from run_skip_events [OF this] obtain evs where
        "trace w' = trace w @ evs" "\<forall>e\<in>set evs. \<not> is_invocation e \<and> \<not> is_write e" by blast
      with t nuh not_invocation_not_failed show ?thesis by auto
    qed
  qed
qed

lemma run_events_no_write_before_failure:
  assumes "run E updatehash n0 w0 = (out, n', w')" "trace w' = trace w0 @ evs"
    "e \<in> set evs" "failed e"
  shows "aborted out evs"
proof -
  from run_events [OF assms(1)] obtain evs' where
    "trace w' = trace w0 @ evs'" "(\<forall>e\<in>set evs'. \<not> failed e) \<or> aborted out evs'" by blast
  with assms(2) have "(\<forall>e\<in>set evs. \<not> failed e) \<or> aborted out evs" by simp
  with assms(3,4) show ?thesis by blast
qed

section \<open>A failed invocation\<close>

text \<open>
  C2. When the log of a run holds an invocation of the adapter that returned a nonzero
  return code, the run raises the error with that invocation's error output, the failed
  invocation is the last entry of the log (so the adapter is not invoked for any later
  index), no earlier invocation has failed, and the run has written no file: the marker
  is written only after an execution that succeeded as a whole.
\<close>

theorem failed_invocation_aborts_run:
  assumes "run E updatehash n w = (out, n', w')"
    and "trace w' = trace w @ evs"
    and "Invoked b c r \<in> set evs"
    and "returncode (a_runtime r) \<noteq> 0"
  shows "out = Inl (RuntimeError (stderr (a_runtime r)))
       \<and> (\<exists>pre. evs = pre @ [Invoked b c r] \<and> (\<forall>e\<in>set pre. \<not> failed e))
       \<and> (\<forall>e\<in>set evs. \<not> is_write e)"
proof -
  have f: "failed (Invoked b c r)" using assms(4) by (simp add: failed_def)
  from run_events_no_write_before_failure [OF assms(1,2,3) f]
  obtain pre b' c' r' where
    a: "evs = pre @ [Invoked b' c' r']" "quiet pre" "out = Inl (RuntimeError (stderr (a_runtime r')))"
    by (auto simp: aborted_def)
  have "Invoked b c r \<notin> set pre" using a(2) f by (auto simp: quiet_def)
  with assms(3) a(1) have eq: "Invoked b c r = Invoked b' c' r'" by auto
  have "\<forall>e\<in>set evs. \<not> is_write e"
    using a(1,2) by (auto simp: quiet_def is_write_def)
  with a eq show ?thesis by (auto simp: quiet_def)
qed

lemma sample_iteration_trace:
  "trace (snd (snd (run (sample_env True True) False
          (iterating_node [''/a/x.nii'', ''/a/bad.nii'', ''/a/z.nii'']) sample_world)))
   = [Invoked [(''infile'', VStr ''/wf/N/infile_0/x.nii''), (''frac'', VInt 5)]
        (Some ''/wf/N/infile_0'')
        \<lparr> a_interface = ''Bet'', a_runtime = \<lparr> returncode = 0, stderr = ''boom'' \<rparr>,
          a_outputs = [(''out'', VInt 5)] \<rparr>,
      Invoked [(''infile'', VStr ''/wf/N/infile_1/bad.nii''), (''frac'', VInt 5)]
        (Some ''/wf/N/infile_1'')
        \<lparr> a_interface = ''Bet'', a_runtime = \<lparr> returncode = 1, stderr = ''boom'' \<rparr>,
          a_outputs = [(''out'', VInt 5)] \<rparr>]"
  by code_simp

theorem failed_invocation_aborts_run_witness:
  "fst (run (sample_env True True) False
          (iterating_node [''/a/x.nii'', ''/a/bad.nii'', ''/a/z.nii'']) sample_world)
     = Inl (RuntimeError ''boom'')
   \<and> filter is_write (trace (snd (snd (run (sample_env True True) False
          (iterating_node [''/a/x.nii'', ''/a/bad.nii'', ''/a/z.nii'']) sample_world))))
       = []"
proof -
  let ?R = "run (sample_env True True) False
          (iterating_node [''/a/x.nii'', ''/a/bad.nii'', ''/a/z.nii'']) sample_world"
  let ?r = "\<lparr> a_interface = ''Bet'', a_runtime = \<lparr> returncode = 1, stderr = ''boom'' \<rparr>,
         a_outputs = [(''out'', VInt 5)] \<rparr>"
  have h1: "?R = (fst ?R, fst (snd ?R), snd (snd ?R))" by simp
  have h2: "trace (snd (snd ?R)) = trace sample_world @ trace (snd (snd ?R))"
    by (simp add: sample_world_def)
  have h3: "Invoked [(''infile'', VStr ''/wf/N/infile_1/bad.nii''), (''frac'', VInt 5)]
                (Some ''/wf/N/infile_1'') ?r
              \<in> set (trace (snd (snd ?R)))"
    unfolding sample_iteration_trace by simp
  have h4: "returncode (a_runtime ?r) \<noteq> 0" by simp
  from failed_invocation_aborts_run [OF h1 h2 h3 h4] show ?thesis
    by (simp add: filter_empty_conv)
qed


text \<open>
  C3. The error that \<^verbatim>\<open>run\<close> raises for a failed invocation is the \<^verbatim>\<open>RuntimeError\<close> of
  \<^verbatim>\<open>_run_interface\<close>, which holds the error output only. The message with the node's name
  and inputs that \<^verbatim>\<open>run\<close> builds for a nonzero return code is never reached.
\<close>

theorem run_failure_error_holds_stderr_only:
  "fst (run (sample_env True True) False (sample_node (VInt 5) (VInt 1) [] True) sample_world)
     = Inl (RuntimeError ''boom'')
   \<and> name (sample_node (VInt 5) (VInt 1) [] True) = ''N''
   \<and> str_of_bunch (sample_env True True) (inputs (sample_node (VInt 5) (VInt 1) [] True)) = ''inputs''
   \<and> trace (snd (snd (run (sample_env True True) False (sample_node (VInt 5) (VInt 1) [] True)
                         sample_world)))
       = [Invoked [(''frac'', VInt 5), (''code'', VInt 1)] (Some ''/wf/N'')
            \<lparr> a_interface = ''Bet'', a_runtime = \<lparr> returncode = 1, stderr = ''boom'' \<rparr>,
              a_outputs = [(''out'', VInt 5)] \<rparr>]"
  by code_simp

section \<open>The working directory\<close>

text \<open>
  C5. \<^verbatim>\<open>_run_interface\<close> changes into the directory it is given and changes back only at
  its end; when the adapter returns a nonzero return code it raises before that, and the
  process stays in the node's directory instead of the directory it came from.
\<close>

theorem run_interface_failure_keeps_directory:
  "getcwd sample_world = ''/home''
   \<and> fst (run_interface (sample_env True True) True (Some ''/wf/N'')
            (sample_node (VInt 5) (VInt 1) [] True) sample_world)
       = Inl (RuntimeError ''boom'')
   \<and> getcwd (snd (snd (run_interface (sample_env True True) True (Some ''/wf/N'')
                         (sample_node (VInt 5) (VInt 1) [] True) sample_world)))
       = ''/wf/N''"
  by code_simp

section \<open>Inputs and attributes of a running node\<close>

lemma bunch_get_setattr:
  "bunch_get (bunch_setattr b k v) k' = (if k' = k then v else bunch_get b k')"
  by (simp add: bunch_get_def bunch_setattr_def update_conv')

lemma bunch_hasattr_setattr:
  "bunch_hasattr (bunch_setattr b k v) k' = (k' = k \<or> bunch_hasattr b k')"
  by (simp add: bunch_hasattr_def bunch_setattr_def update_conv')

lemma bunch_get_absent: "\<not> bunch_hasattr b k \<Longrightarrow> bunch_get b k = VNone"
  by (simp add: bunch_hasattr_def bunch_get_def)

lemma inputs_set_inputs [simp]: "inputs (set_inputs b n) = b"
  by (simp add: inputs_def set_inputs_def)

lemma set_input_hasattr:
  "bunch_hasattr (inputs (set_input f v n)) k = bunch_hasattr (inputs n) k"
  by (auto simp: set_input_def bunch_hasattr_setattr inputs_def set_inputs_def)

lemma set_input_get:
  "bunch_get (inputs (set_input f v n)) k =
     (if k = f \<and> bunch_hasattr (inputs n) f then v else bunch_get (inputs n) k)"
  by (auto simp: set_input_def bunch_get_setattr inputs_def set_inputs_def)

lemma set_input_fields [simp]:
  "iterfield (set_input f v n) = iterfield n"
  "disk_based (set_input f v n) = disk_based n"
  "result (set_input f v n) = result n"
  "name (set_input f v n) = name n"
  "output_directory_base (set_input f v n) = output_directory_base n"
  "overwrite (set_input f v n) = overwrite n"
  "get_input_info (interface (set_input f v n)) = get_input_info (interface n)"
  by (simp_all add: set_input_def set_inputs_def)

lemma update_result_fields [simp]:
  "iterfield (update_result g n) = iterfield n"
  "disk_based (update_result g n) = disk_based n"
  "inputs (update_result g n) = inputs n"
  "name (update_result g n) = name n"
  "output_directory_base (update_result g n) = output_directory_base n"
  "overwrite (update_result g n) = overwrite n"
  "interface (update_result g n) = interface n"
  "result (update_result g n) = map_option g (result n)"
  by (simp_all add: update_result_def inputs_def)

lemma same_shape_refl [simp]: "same_shape n n"
  by (simp add: same_shape_def)

lemma same_shape_trans: "same_shape a b \<Longrightarrow> same_shape b c \<Longrightarrow> same_shape a c"
  by (simp add: same_shape_def)

lemma same_shape_set_input [simp]: "same_shape n (set_input f v n)"
  by (simp add: same_shape_def set_input_hasattr)

lemma same_shape_update_result [simp]: "same_shape n (update_result g n)"
  by (simp add: same_shape_def)

lemma assign_fields_shape:
  "assign_fields E subdir iv i flds n w = (out, n', w') \<Longrightarrow> same_shape n n' \<and> result n' = result n"
proof (induction flds arbitrary: n w)
  case Nil
  then show ?case by simp
next
  case (Cons f flds)
  show ?case
  proof (cases "map_of iv f")
    case None
    with Cons.prems show ?thesis by simp
  next
    case (Some vals)
    show ?thesis
    proof (cases "i < length vals")
      case False
      with Cons.prems Some show ?thesis by simp
    next
      case True
      from Cons.prems Some True obtain v w1 where
        "assign_fields E subdir iv i flds (set_input f v n) w1 = (out, n', w')"
        by (auto split: if_splits prod.splits)
      from Cons.IH [OF this] show ?thesis
        using same_shape_trans [OF same_shape_set_input] by auto
    qed
  qed
qed

lemma iterate_shape:
  "iterate E ex bw iv idxs cwd n w = (out, n', w') \<Longrightarrow>
   same_shape n n' \<and> (result n \<noteq> None \<longrightarrow> result n' \<noteq> None)"
proof (induction idxs arbitrary: cwd n w)
  case Nil
  then show ?case by simp
next
  case (Cons i idxs)
  show ?case
  proof (cases "enter_subdir bw i cwd n w")
    case (Inl e)
    with Cons.prems show ?thesis by simp
  next
    case (Inr t)
    then obtain subdir cwd1 w1 where es: "enter_subdir bw i cwd n w = Inr (subdir, cwd1, w1)"
      by (cases t) auto
    obtain o2 n2 w2 where af: "assign_fields E subdir iv i (iterfield n) n w1 = (o2, n2, w2)"
      by (cases "assign_fields E subdir iv i (iterfield n) n w1") auto
    note s2 = assign_fields_shape [OF af]
    show ?thesis
    proof (cases o2)
      case (Inl e)
      with Cons.prems es af s2 show ?thesis by auto
    next
      case (Inr u)
      show ?thesis
      proof (cases "ex \<and> returncode (a_runtime (if_run (interface n2) (inputs n2) cwd1 (getcwd w2) (filesystem w2))) \<noteq> 0")
        case True
        with Cons.prems es af Inr have "n' = n2\<lparr>itervals_attr := Some iv\<rparr>"
          by (auto simp: Let_def)
        with s2 show ?thesis by (simp add: same_shape_def inputs_def)
      next
        case False
        with Cons.prems es af Inr obtain g w3 where
          "iterate E ex bw iv idxs cwd1 (update_result g n2) w3 = (out, n', w')"
          by (cases ex) (auto simp: Let_def)
        from Cons.IH [OF this] s2 show ?thesis
          using same_shape_trans [OF _ same_shape_trans [OF same_shape_update_result]]
          by (auto simp: same_shape_def)
      qed
    qed
  qed
qed

lemma collect_itervals_lookup:
  "collect_itervals b flds iv nl = (iv', nl') \<Longrightarrow>
   map_of iv' f = (if f \<in> set flds then Some (iterval_of (bunch_get b f)) else map_of iv f)
   \<and> map_of nl' f = (if f \<in> set flds then Some (\<not> is_list (bunch_get b f)) else map_of nl f)"
proof (induction flds arbitrary: iv nl)
  case Nil
  then show ?case by simp
next
  case (Cons g flds)
  from Cons.prems have
    "collect_itervals b flds (AList.update g (iterval_of (bunch_get b g)) iv)
        (AList.update g (\<not> is_list (bunch_get b g)) nl) = (iv', nl')"
    by simp
  from Cons.IH [OF this] show ?case
    by (auto simp: update_conv')
qed

lemma restore_inputs_shape:
  "restore_inputs iv nl flds n = (out, n') \<Longrightarrow> same_shape n n' \<and> result n' = result n"
proof (induction flds arbitrary: iv n)
  case Nil
  then show ?case by simp
next
  case (Cons f flds)
  show ?case
  proof (cases "map_of nl f")
    case None
    with Cons.prems show ?thesis by simp
  next
    case (Some b)
    show ?thesis
    proof (cases "map_of iv f")
      case None
      with Cons.prems Some show ?thesis by simp
    next
      case vals: (Some vals)
      show ?thesis
      proof (cases "b \<and> vals = []")
        case True
        with Cons.prems Some vals show ?thesis by simp
      next
        case False
        with Cons.prems Some vals obtain iv1 v where
          "restore_inputs iv1 nl flds (set_input f v n) = (out, n')"
          by (auto split: if_splits)
        from Cons.IH [OF this] show ?thesis
          using same_shape_trans [OF same_shape_set_input] by auto
      qed
    qed
  qed
qed

lemma restore_inputs_frame:
  "restore_inputs iv nl flds n = (out, n') \<Longrightarrow> f \<notin> set flds \<Longrightarrow>
   bunch_get (inputs n') f = bunch_get (inputs n) f"
proof (induction flds arbitrary: iv n)
  case Nil
  then show ?case by simp
next
  case (Cons g flds)
  show ?case
  proof (cases "map_of nl g")
    case None
    with Cons.prems show ?thesis by simp
  next
    case (Some b)
    show ?thesis
    proof (cases "map_of iv g")
      case None
      with Cons.prems Some show ?thesis by simp
    next
      case vals: (Some vals)
      show ?thesis
      proof (cases "b \<and> vals = []")
        case True
        with Cons.prems Some vals show ?thesis by simp
      next
        case False
        with Cons.prems Some vals obtain iv1 v where
          "restore_inputs iv1 nl flds (set_input g v n) = (out, n')"
          by (auto split: if_splits)
        from Cons.IH [OF this] Cons.prems(2) show ?thesis
          by (simp add: set_input_get)
      qed
    qed
  qed
qed

lemma restore_inputs_exhausted:
  "f \<in> set flds \<Longrightarrow> map_of nl f = Some True \<Longrightarrow> map_of iv f = Some [] \<Longrightarrow>
   fst (restore_inputs iv nl flds n) \<noteq> Inr ()"
proof (induction flds arbitrary: iv n)
  case Nil
  then show ?case by simp
next
  case (Cons g flds)
  show ?case
  proof (cases "g = f")
    case True
    with Cons.prems show ?thesis by simp
  next
    case False
    with Cons.prems have f: "f \<in> set flds" by simp
    show ?thesis
    proof (cases "map_of nl g")
      case None
      then show ?thesis by simp
    next
      case (Some b)
      show ?thesis
      proof (cases "map_of iv g")
        case None
        with Some show ?thesis by simp
      next
        case vals: (Some vals)
        have upd: "map_of (AList.update g (butlast vals) iv) f = Some []"
          using False Cons.prems(3) by (simp add: update_conv')
        show ?thesis
          using Some vals Cons.IH [OF f Cons.prems(2) upd] Cons.IH [OF f Cons.prems(2,3)]
          by simp
      qed
    qed
  qed
qed

lemma restore_inputs_value:
  "restore_inputs iv nl flds n = (Inr (), n') \<Longrightarrow> f \<in> set flds \<Longrightarrow>
   map_of nl f = Some b \<Longrightarrow> map_of iv f = Some vals \<Longrightarrow> (b \<longrightarrow> length vals \<le> 1) \<Longrightarrow>
   bunch_hasattr (inputs n) f \<Longrightarrow>
   bunch_get (inputs n') f = (if b then last vals else VList vals)"
proof (induction flds arbitrary: iv n)
  case Nil
  then show ?case by simp
next
  case (Cons g flds)
  show ?case
  proof (cases "g = f")
    case True
    show ?thesis
    proof (cases b)
      case b: True
      with Cons.prems True have ne: "vals \<noteq> []" by auto
      with Cons.prems(5) b have bl: "butlast vals = []" by (cases vals) auto
      from Cons.prems True b ne have
        r: "restore_inputs (AList.update f (butlast vals) iv) nl flds (set_input f (last vals) n) = (Inr (), n')"
        by simp
      have "f \<notin> set flds"
      proof
        assume "f \<in> set flds"
        from restore_inputs_exhausted [OF this, of nl "AList.update f (butlast vals) iv" "set_input f (last vals) n"]
          Cons.prems(3) b bl r show False by (simp add: update_conv')
      qed
      from restore_inputs_frame [OF r this] Cons.prems(6) b show ?thesis
        by (simp add: set_input_get)
    next
      case nb: False
      from Cons.prems True nb have
        r: "restore_inputs iv nl flds (set_input f (VList vals) n) = (Inr (), n')"
        by simp
      show ?thesis
      proof (cases "f \<in> set flds")
        case True
        from Cons.IH [OF r True Cons.prems(3,4,5)] Cons.prems(6) show ?thesis
          by (simp add: set_input_hasattr)
      next
        case False
        from restore_inputs_frame [OF r False] Cons.prems(6) nb show ?thesis
          by (simp add: set_input_get)
      qed
    qed
  next
    case False
    with Cons.prems have f: "f \<in> set flds" by simp
    from Cons.prems(1) obtain iv1 v where
      r: "restore_inputs iv1 nl flds (set_input g v n) = (Inr (), n')"
      and iv1: "iv1 = iv \<or> (\<exists>xs. iv1 = AList.update g xs iv)"
      by (auto split: option.splits if_splits)
    from iv1 False Cons.prems(4) have m: "map_of iv1 f = Some vals"
      by (auto simp: update_conv')
    from Cons.IH [OF r f Cons.prems(3) m Cons.prems(5)] Cons.prems(6) show ?thesis
      by (simp add: set_input_hasattr)
  qed
qed

lemma output_directory_node:
  "output_directory E n w = (d, n', w') \<Longrightarrow>
   same_shape n n' \<and> inputs n' = inputs n \<and> result n' = result n \<and> interface n' = interface n"
  by (auto simp: output_directory_def Let_def same_shape_def inputs_def split: option.splits)

lemma enter_cwd_node:
  assumes "enter_cwd E cwd n w = (c, n', w')"
  shows "same_shape n n' \<and> inputs n' = inputs n \<and> result n' = result n \<and> interface n' = interface n
     \<and> (disk_based n \<longrightarrow> c \<noteq> None)"
proof (cases "\<not> cwd_given cwd \<and> disk_based n")
  case True
  let ?w1 = "(case cwd of None \<Rightarrow> w | Some c \<Rightarrow> if c \<noteq> [] then os_chdir c w else w)"
  obtain d n1 w2 where od: "output_directory E n ?w1 = (d, n1, w2)"
    by (cases "output_directory E n ?w1") auto
  from assms True od have "n' = n1" "c = Some d"
    by (auto simp: enter_cwd_def)
  with output_directory_node [OF od] show ?thesis by simp
next
  case False
  with assms have "n' = n" "c = cwd" by (auto simp: enter_cwd_def)
  with False show ?thesis by (auto simp: cwd_given_def split: option.splits)
qed

lemma iterval_of_scalar: "\<not> is_list v \<Longrightarrow> iterval_of v = [v]"
  by (cases v) (simp_all add: iterval_of_def)

lemma iterval_of_list: "is_list v \<Longrightarrow> VList (iterval_of v) = v"
  by (cases v) (simp_all add: iterval_of_def)

section \<open>Restoring the iteration fields\<close>

lemma run_interface_restores:
  assumes "run_interface E ex cwd_arg n0 w0 = (Inr (), n', w')"
    and "f \<in> set (iterfield n0)"
  shows "bunch_get (inputs n') f = bunch_get (inputs n0) f"
proof -
  obtain cwd n w where ec: "enter_cwd E cwd_arg n0 w0 = (cwd, n, w)"
    by (cases "enter_cwd E cwd_arg n0 w0") auto
  from enter_cwd_node [OF ec] have n: "same_shape n0 n" "inputs n = inputs n0" by simp_all
  then have itf: "iterfield n = iterfield n0" by (simp add: same_shape_def)
  with assms(2) have ne: "iterfield n \<noteq> []" and fin: "f \<in> set (iterfield n)" by auto
  obtain iv nl where ci: "collect_itervals (inputs n) (iterfield n) [] [] = (iv, nl)"
    by (cases "collect_itervals (inputs n) (iterfield n) [] []") auto
  from collect_itervals_lookup [OF ci, of f] fin have
    ivf: "map_of iv f = Some (iterval_of (bunch_get (inputs n) f))"
    and nlf: "map_of nl f = Some (\<not> is_list (bunch_get (inputs n) f))" by simp_all
  from collect_itervals_lookup [OF ci, of "hd (iterfield n)"] ne obtain vals where
    hdv: "map_of iv (hd (iterfield n)) = Some vals" by simp
  define nr where "nr = n\<lparr>result := Some \<lparr>r_interface = SList [], r_runtime = SList [], r_outputs = []\<rparr>\<rparr>"
  obtain o3 n3 w3 where it: "iterate E ex cwd iv [0..<length vals] cwd nr w = (o3, n3, w3)"
    by (cases "iterate E ex cwd iv [0..<length vals] cwd nr w") auto
  from assms(1) ec ne ci hdv it obtain cwd2 where o3: "o3 = Inr cwd2"
    by (cases o3) (auto simp: run_interface_def nr_def)
  obtain o4 n4 where ri: "restore_inputs iv nl (iterfield n3) n3 = (o4, n4)"
    by (cases "restore_inputs iv nl (iterfield n3) n3") auto
  from assms(1) ec ne ci hdv it o3 ri have o4: "o4 = Inr ()" and n4: "n' = n4"
    by (cases o4; auto simp: run_interface_def nr_def)+
  have s3: "same_shape n n3"
    using iterate_shape [OF it] by (simp add: nr_def same_shape_def inputs_def)
  then have itf3: "iterfield n3 = iterfield n"
    and has3: "bunch_hasattr (inputs n3) f = bunch_hasattr (inputs n) f"
    by (simp_all add: same_shape_def)
  show ?thesis
  proof (cases "bunch_hasattr (inputs n) f")
    case True
    have len: "\<not> is_list (bunch_get (inputs n) f) \<longrightarrow> length (iterval_of (bunch_get (inputs n) f)) \<le> 1"
      by (simp add: iterval_of_scalar)
    from ri o4 have r: "restore_inputs iv nl (iterfield n3) n3 = (Inr (), n4)" by simp
    from fin itf3 have f3: "f \<in> set (iterfield n3)" by simp
    from True has3 have h3: "bunch_hasattr (inputs n3) f" by simp
    from restore_inputs_value [OF r f3 nlf ivf len h3]
    have "bunch_get (inputs n4) f = bunch_get (inputs n) f"
      by (cases "is_list (bunch_get (inputs n) f)") (simp_all add: iterval_of_scalar iterval_of_list)
    with n4 n show ?thesis by simp
  next
    case False
    from restore_inputs_shape [OF ri] has3 False have "\<not> bunch_hasattr (inputs n4) f"
      by (simp add: same_shape_def)
    with False n4 n show ?thesis by (simp add: bunch_get_absent)
  qed
qed

section \<open>Aggregation of the outputs of an iteration\<close>











section \<open>The outputs of a run and its success when nothing is executed\<close>







lemma same_lengths_refl [simp]: "same_lengths b b"
  by (simp add: same_lengths_def)




lemma set_inputs_fields [simp]:
  "iterfield (set_inputs b n) = iterfield n"
  "disk_based (set_inputs b n) = disk_based n"
  "result (set_inputs b n) = result n"
  "name (set_inputs b n) = name n"
  "output_directory_base (set_inputs b n) = output_directory_base n"
  "overwrite (set_inputs b n) = overwrite n"
  "get_input_info (interface (set_inputs b n)) = get_input_info (interface n)"
  by (simp_all add: set_inputs_def)








lemma resolve_marker_node:
  assumes "resolve_marker E n w = (x, n', w')"
  shows "same_shape n n' \<and> inputs n' = inputs n \<and> result n' = result n"
proof -
  obtain d0 n1 w1 where od: "output_directory E n w = (d0, n1, w1)"
    by (cases "output_directory E n w") auto
  with assms have "n' = n1" by (auto simp: resolve_marker_def split: prod.splits)
  with output_directory_node [OF od] show ?thesis by simp
qed


section \<open>Updating the hash only\<close>





section \<open>Running a node twice\<close>
















section \<open>The iteration fields after a run\<close>

lemma run_restores:
  assumes "\<not> disk_based n \<or> get_input_info (interface n) = None"
    and "run E updatehash n w = (Inr res, n', w')"
    and "f \<in> set (iterfield n)"
  shows "bunch_get (inputs n') f = bunch_get (inputs n) f"
proof (cases "disk_based n")
  case False
  obtain o3 n3 w3 where ri: "run_interface E True None n w = (o3, n3, w3)"
    by (cases "run_interface E True None n w") auto
  from assms(2) False ri have "o3 = Inr ()" "n' = n3"
    by (cases o3; auto simp: run_def)+
  with ri run_interface_restores [of E True None n w n3 w3 f] assms(3) show ?thesis by simp
next
  case True
  with assms(1) have gi: "get_input_info (interface n) = None" by simp
  obtain outdir hi hf na wa where rm: "resolve_marker E n w = ((outdir, hi, hf), na, wa)"
    by (cases "resolve_marker E n w") auto
  from resolve_marker_node [OF rm] have na: "same_shape n na" "inputs na = inputs n" by simp_all
  then have itf: "iterfield na = iterfield n" and gia: "get_input_info (interface na) = None"
    using gi by (simp_all add: same_shape_def)
  define w1 where "w1 = (if updatehash then snd (save_hashfile E hf hi wa) else wa)"
  have sv: "(if updatehash then save_hashfile E hf hi wa else (Inr (), wa)) = (Inr (), w1)"
    by (simp add: w1_def save_hashfile_result)
  show ?thesis
  proof (cases "\<not> updatehash \<and> (overwrite na = Some True \<or> \<not> path_exists w1 hf)")
    case ex: True
    with assms(2) True rm sv have re: "run_execute E outdir hi hf na w1 = (Inr res, n', w')"
      by (simp add: run_def)
    let ?w2 = "w1\<lparr>filesystem := cleandir E outdir (filesystem w1)\<rparr>"
    obtain o3 n3 w3 where ri: "run_interface E True (Some outdir) na ?w2 = (o3, n3, w3)"
      by (cases "run_interface E True (Some outdir) na ?w2") auto
    from re gia ri have o3: "o3 = Inr ()"
      by (cases o3) (auto simp: run_execute_def Let_def)
    from re gia ri o3 have "n' = n3"
      by (auto simp: run_execute_def Let_def split: sum.splits if_splits prod.splits)
    with ri o3 run_interface_restores [of E True "Some outdir" na ?w2 n3 w3 f] assms(3) itf na
    show ?thesis by simp
  next
    case sk: False
    with assms(2) True rm sv have rs: "run_skip E outdir na w1 = (Inr res, n', w')"
      by (auto simp: run_def)
    obtain o3 n3 w3 where ri: "run_interface E False (Some outdir) na w1 = (o3, n3, w3)"
      by (cases "run_interface E False (Some outdir) na w1") auto
    from rs gia ri have "o3 = Inr ()" "n' = n3"
      by (cases o3; auto simp: run_skip_def)+
    with ri run_interface_restores [of E False "Some outdir" na w1 n3 w3 f] assms(3) itf na
    show ?thesis by simp
  qed
qed

text \<open>
  C6. When \<^verbatim>\<open>_run_interface\<close> returns, every iteration field holds the value it held
  before the call: a field that held a scalar (and was wrapped in a one-element list for
  the iteration) holds that scalar again, and a field that held a list holds the whole
  list again. The same holds from before to after a whole \<^verbatim>\<open>run\<close> that returns, for a node
  whose inputs are not staged as files (a node that is not disk based, or whose interface
  declares no input files).
\<close>

theorem iteration_fields_restored:
  "(run_interface E ex cwd_arg n0 w0 = (Inr (), n', w') \<and> f \<in> set (iterfield n0)
      \<longrightarrow> bunch_get (inputs n') f = bunch_get (inputs n0) f)
   \<and> ((\<not> disk_based n \<or> get_input_info (interface n) = None)
        \<and> run E updatehash n w = (Inr res, n1, w1) \<and> g \<in> set (iterfield n)
      \<longrightarrow> bunch_get (inputs n1) g = bunch_get (inputs n) g)"
  using run_interface_restores [of E ex cwd_arg n0 w0 n' w' f]
        run_restores [of n E updatehash w res n1 w1 g]
  by blast

lemma sample_restoring_run:
  "fst (run (sample_env True True) False
          (sample_node (VList [VInt 5, VInt 6]) (VInt 0) [''code'', ''frac''] False) sample_world)
     = Inr (Some \<lparr> r_interface = SList [''Bet''],
                    r_runtime = SList [\<lparr> returncode = 0, stderr = ''boom'' \<rparr>],
                    r_outputs = [(''out'', VList [VInt 5])] \<rparr>)"
  by code_simp

theorem iteration_fields_restored_witness:
  "fst (run_interface (sample_env True True) True None
          (sample_node (VList [VInt 5, VInt 6]) (VInt 0) [''code'', ''frac''] False) sample_world)
     = Inr ()
   \<and> bunch_get (inputs (fst (snd (run_interface (sample_env True True) True None
          (sample_node (VList [VInt 5, VInt 6]) (VInt 0) [''code'', ''frac''] False) sample_world))))
        ''code'' = VInt 0
   \<and> bunch_get (inputs (fst (snd (run (sample_env True True) False
          (sample_node (VList [VInt 5, VInt 6]) (VInt 0) [''code'', ''frac''] False) sample_world))))
        ''frac'' = VList [VInt 5, VInt 6]"
proof -
  let ?N = "sample_node (VList [VInt 5, VInt 6]) (VInt 0) [''code'', ''frac''] False"
  let ?R = "run_interface (sample_env True True) True None ?N sample_world"
  let ?Q = "run (sample_env True True) False ?N sample_world"
  let ?res = "Some \<lparr> r_interface = SList [''Bet''],
                    r_runtime = SList [\<lparr> returncode = 0, stderr = ''boom'' \<rparr>],
                    r_outputs = [(''out'', VList [VInt 5])] \<rparr>"
  have r: "fst ?R = Inr ()" by code_simp
  then have h1: "?R = (Inr (), fst (snd ?R), snd (snd ?R))" by (metis prod.collapse)
  have h2: "''code'' \<in> set (iterfield ?N)" "''frac'' \<in> set (iterfield ?N)" "\<not> disk_based ?N"
    by (simp_all add: sample_node_def)
  have h3: "?Q = (Inr ?res, fst (snd ?Q), snd (snd ?Q))"
    using sample_restoring_run by (metis prod.collapse)
  from iteration_fields_restored
         [of "sample_env True True" True None ?N sample_world "fst (snd ?R)" "snd (snd ?R)" "''code''"
             ?N False sample_world ?res "fst (snd ?Q)" "snd (snd ?Q)" "''frac''"]
       h1 h2 h3 r
  show ?thesis
    by (simp add: sample_node_def sample_interface_def inputs_def bunch_get_def)
qed

end
